theory Spec2Isabelle
  imports Complex_Main
begin

section \<open>JavaScript numbers\<close>

text \<open>
  The controls compute with JavaScript numbers. A number is modelled as one of the three
  special values of the language or as a finite real; the sign of zero is not tracked.
  The special values follow ECMA-262: \<open>NaN\<close> is absorbing, \<open>Infinity - Infinity\<close>,
  \<open>Infinity * 0\<close>, \<open>0 / 0\<close> and \<open>Infinity / Infinity\<close> are \<open>NaN\<close>, a non-zero finite value
  divided by zero is an infinity, and every comparison with \<open>NaN\<close> is false.

  The operators of this section are exact on finite values. The properties of the
  structure of the computations (what is rejected, clamped, snapped and emitted) are
  stated with them. The two properties of the precision of the arithmetic, the round trip
  of a conversion and the repeated rounding to a step, are stated on the core functions
  with every result rounded to binary64.
\<close>

datatype number = NaN | PosInfinity | NegInfinity | Num real

text \<open>The infinity with the sign of \<open>s\<close>; \<open>NaN\<close> when \<open>s\<close> is zero.\<close>

definition signedInfinity :: "real \<Rightarrow> number" where
  "signedInfinity s = (if 0 < s then PosInfinity else if s < 0 then NegInfinity else NaN)"

text \<open>Truncation towards zero, as in the remainder operator \<open>%\<close>.\<close>

definition toward_zero :: "real \<Rightarrow> real" where
  "toward_zero x = (if 0 \<le> x then of_int \<lfloor>x\<rfloor> else of_int \<lceil>x\<rceil>)"

instantiation number :: "{plus, minus, uminus, times, inverse, modulo, abs, ord}"
begin

fun uminus_number :: "number \<Rightarrow> number" where
  "uminus_number NaN = NaN"
| "uminus_number PosInfinity = NegInfinity"
| "uminus_number NegInfinity = PosInfinity"
| "uminus_number (Num a) = Num (- a)"

fun plus_number :: "number \<Rightarrow> number \<Rightarrow> number" where
  "plus_number (Num a) (Num b) = Num (a + b)"
| "plus_number NaN _ = NaN"
| "plus_number _ NaN = NaN"
| "plus_number PosInfinity NegInfinity = NaN"
| "plus_number NegInfinity PosInfinity = NaN"
| "plus_number PosInfinity _ = PosInfinity"
| "plus_number _ PosInfinity = PosInfinity"
| "plus_number NegInfinity _ = NegInfinity"
| "plus_number _ NegInfinity = NegInfinity"

definition minus_number :: "number \<Rightarrow> number \<Rightarrow> number" where
  "minus_number (a::number) b = a + (- b)"

fun times_number :: "number \<Rightarrow> number \<Rightarrow> number" where
  "times_number (Num a) (Num b) = Num (a * b)"
| "times_number NaN _ = NaN"
| "times_number _ NaN = NaN"
| "times_number PosInfinity (Num b) = signedInfinity b"
| "times_number NegInfinity (Num b) = signedInfinity (- b)"
| "times_number (Num a) PosInfinity = signedInfinity a"
| "times_number (Num a) NegInfinity = signedInfinity (- a)"
| "times_number PosInfinity PosInfinity = PosInfinity"
| "times_number NegInfinity NegInfinity = PosInfinity"
| "times_number PosInfinity NegInfinity = NegInfinity"
| "times_number NegInfinity PosInfinity = NegInfinity"

fun divide_number :: "number \<Rightarrow> number \<Rightarrow> number" where
  "divide_number (Num a) (Num b) = (if b = 0 then signedInfinity a else Num (a / b))"
| "divide_number NaN _ = NaN"
| "divide_number _ NaN = NaN"
| "divide_number (Num a) _ = Num 0"
| "divide_number PosInfinity (Num b) = (if 0 \<le> b then PosInfinity else NegInfinity)"
| "divide_number NegInfinity (Num b) = (if 0 \<le> b then NegInfinity else PosInfinity)"
| "divide_number _ _ = NaN"

definition inverse_number :: "number \<Rightarrow> number" where
  "inverse_number a = (Num 1 div a)"

fun modulo_number :: "number \<Rightarrow> number \<Rightarrow> number" where
  "modulo_number (Num a) (Num b) = (if b = 0 then NaN else Num (a - b * toward_zero (a / b)))"
| "modulo_number (Num a) PosInfinity = Num a"
| "modulo_number (Num a) NegInfinity = Num a"
| "modulo_number _ _ = NaN"

fun abs_number :: "number \<Rightarrow> number" where
  "abs_number NaN = NaN"
| "abs_number PosInfinity = PosInfinity"
| "abs_number NegInfinity = PosInfinity"
| "abs_number (Num a) = Num \<bar>a\<bar>"

fun less_number :: "number \<Rightarrow> number \<Rightarrow> bool" where
  "less_number (Num a) (Num b) = (a < b)"
| "less_number NaN _ = False"
| "less_number _ NaN = False"
| "less_number _ NegInfinity = False"
| "less_number PosInfinity _ = False"
| "less_number _ _ = True"

definition less_eq_number :: "number \<Rightarrow> number \<Rightarrow> bool" where
  "less_eq_number (a::number) b = (a < b \<or> (a \<noteq> NaN \<and> a = b))"

instance ..

end

text \<open>\<open>Number.isFinite\<close>, \<open>Math.max\<close>, \<open>Math.min\<close> and \<open>Math.round\<close> (halves round up).\<close>

fun isFinite :: "number \<Rightarrow> bool" where
  "isFinite (Num a) = True"
| "isFinite _ = False"

definition Math_max :: "number \<Rightarrow> number \<Rightarrow> number" where
  "Math_max a b = (if a = NaN \<or> b = NaN then NaN else if a < b then b else a)"

definition Math_min :: "number \<Rightarrow> number \<Rightarrow> number" where
  "Math_min a b = (if a = NaN \<or> b = NaN then NaN else if b < a then b else a)"

fun Math_round :: "number \<Rightarrow> number" where
  "Math_round (Num a) = Num (of_int \<lfloor>a + 1 / 2\<rfloor>)"
| "Math_round x = x"


subsection \<open>Printing numbers\<close>

text \<open>
  \<open>Number.prototype.toString\<close> prints a finite non-zero number of magnitude \<open>a\<close> with
  \<open>1e-6 \<le> a < 1e21\<close> in positional notation, and any other in exponent notation
  (\<open>1e-7\<close>, \<open>1.5e+21\<close>). The code only counts the characters after the first point of
  that string, so the model computes this count instead of the string. A binary64 value
  prints with at most 17 significant digits, hence the bounds on the searches; on the
  decimals with that many digits the counts are those of the language.
\<close>

text \<open>Digits after the point of a magnitude printed in positional notation.\<close>

fun fractionDigits :: "nat \<Rightarrow> real \<Rightarrow> nat" where
  "fractionDigits 0 a = 0"
| "fractionDigits (Suc f) a =
     (if a = of_int \<lfloor>a\<rfloor> then 0 else Suc (fractionDigits f (10 * a)))"

text \<open>Significant digits of a mantissa \<open>1 \<le> y < 10\<close>.\<close>

fun significantDigits :: "nat \<Rightarrow> real \<Rightarrow> nat" where
  "significantDigits 0 y = 1"
| "significantDigits (Suc f) y =
     (if y = of_int \<lfloor>y\<rfloor> then 1 else Suc (significantDigits f (10 * y)))"

text \<open>
  The decimal exponent of a magnitude: how often a magnitude below one is multiplied by
  ten until it reaches one, and how often one from ten on is divided by ten until it is
  below ten. The bound of 400 steps covers the binary64 range.
\<close>

fun leadingShift :: "nat \<Rightarrow> real \<Rightarrow> nat" where
  "leadingShift 0 a = 0"
| "leadingShift (Suc f) a = (if 1 \<le> a then 0 else Suc (leadingShift f (10 * a)))"

fun trailingShift :: "nat \<Rightarrow> real \<Rightarrow> nat" where
  "trailingShift 0 a = 0"
| "trailingShift (Suc f) a = (if a < 10 then 0 else Suc (trailingShift f (a / 10)))"

text \<open>
  Characters after the point in exponent notation, for a mantissa with \<open>k\<close> significant
  digits and an exponent of magnitude \<open>e\<close>: none when \<open>k = 1\<close> (\<open>1e-7\<close> has no point),
  otherwise the \<open>k - 1\<close> remaining digits, the letter, the sign and the digits of the
  exponent (at most three in binary64).
\<close>

definition exponentTail :: "nat \<Rightarrow> nat \<Rightarrow> nat" where
  "exponentTail k e =
     (if k = 1 then 0
      else (k - 1) + 2 + (if e < 10 then 1 else if e < 100 then 2 else 3))"

definition digitsAfterPoint :: "number \<Rightarrow> nat" where
  "digitsAfterPoint x =
     (case x of
        Num r \<Rightarrow>
          (let a = \<bar>r\<bar> in
           if a = 0 then 0
           else if 10 ^ 21 \<le> a then
             (let e = trailingShift 400 a
              in exponentTail (significantDigits 16 (a / 10 ^ e)) e)
           else if a < 1 / 10 ^ 6 then
             (let e = leadingShift 400 a
              in exponentTail (significantDigits 16 (a * 10 ^ e)) e)
           else fractionDigits 22 a)
      | _ \<Rightarrow> 0)"

text \<open>
  \<open>+x.toFixed(d)\<close>: the number read back from \<open>x.toFixed(d)\<close>. The magnitude is rounded
  to \<open>d\<close> decimals, halves upwards; magnitudes from \<open>1e21\<close> on, and the special values,
  print as \<open>toString\<close> does and read back unchanged. The counts \<open>d\<close> that occur are
  those of \<^const>\<open>digitsAfterPoint\<close>, far below the limit of 100 digits.
\<close>

fun toFixed :: "number \<Rightarrow> nat \<Rightarrow> number" where
  "toFixed (Num r) d =
     (if 10 ^ 21 \<le> \<bar>r\<bar> then Num r
      else Num (sgn r * of_int \<lfloor>\<bar>r\<bar> * 10 ^ d + 1 / 2\<rfloor> / 10 ^ d))"
| "toFixed x d = x"

section \<open>Quantities and conversion (core/quantity.ts)\<close>

text \<open>A unit is the string tag of the source; a quantity couples a number with a unit.\<close>

type_synonym Unit = string

record Quantity =
  qty_value :: number
  qty_unit :: Unit

datatype error = Error string

text \<open>The table of canonical factors; a unit outside the table has no factor.\<close>

definition factors :: "Unit \<rightharpoonup> number" where
  "factors = map_of
     [(''m'', Num 1),
      (''ft'', Num 0.3048),
      (''ms'', Num 1),
      (''kmh'', Num 1000 / Num 3600),
      (''mph'', Num 1609.344 / Num 3600),
      (''kts'', Num 1852 / Num 3600)]"

definition convert :: "Quantity \<Rightarrow> Unit \<Rightarrow> error + Quantity" where
  "convert qty to =
     (case (factors (qty_unit qty), factors to) of
        (Some fromFactor, Some toFactor) \<Rightarrow>
          (let canonical = qty_value qty * fromFactor
           in Inr \<lparr>qty_value = canonical / toFactor, qty_unit = to\<rparr>)
      | _ \<Rightarrow> Inl (Error (''Cannot convert from '' @ qty_unit qty @ '' to '' @ to)))"

text \<open>The two dimensions of the specification, and all units of the table.\<close>

definition lengthUnits :: "Unit set" where
  "lengthUnits = {''m'', ''ft''}"

definition speedUnits :: "Unit set" where
  "speedUnits = {''ms'', ''kmh'', ''mph'', ''kts''}"

definition decimals :: "number \<Rightarrow> nat" where
  "decimals n = digitsAfterPoint n"

definition roundToStep :: "number \<Rightarrow> number \<Rightarrow> number" where
  "roundToStep v step =
     (let k = Math_round (v / step);
          r = toFixed (k * step) (decimals step)
      in if isFinite r then r else v)"


section \<open>The dial (react/Dial.tsx)\<close>

text \<open>
  The properties of the component that its computations read; labels, formatting and
  ticks only feed the rendering. The values given are the defaults of the source.
\<close>

record DialProps =
  dial_value :: number
  dial_min :: number
  dial_max :: number
  dial_step :: number
  dial_size :: number
  startAngle :: number
  endAngle :: number
  disabled :: bool

definition Math_PI :: number where
  "Math_PI = Num pi"

definition defaultDialProps :: "number \<Rightarrow> DialProps" where
  "defaultDialProps v =
     \<lparr>dial_value = v, dial_min = Num 0, dial_max = Num 100, dial_step = Num 1,
      dial_size = Num 160, startAngle = - Math_PI * Num 0.75,
      endAngle = Math_PI * Num 0.75, disabled = False\<rparr>"

definition clamp :: "DialProps \<Rightarrow> number \<Rightarrow> number" where
  "clamp p v = Math_min (dial_max p) (Math_max (dial_min p) v)"

definition range_dial :: "DialProps \<Rightarrow> number" where
  "range_dial p = dial_max p - dial_min p"

definition angleFromValue :: "DialProps \<Rightarrow> number \<Rightarrow> number" where
  "angleFromValue p v =
     (let t = (v - dial_min p) / range_dial p
      in startAngle p + t * (endAngle p - startAngle p))"

text \<open>The dial's own rounding to the step grid; it has no guard for a non-finite result.\<close>

definition round_dial :: "number \<Rightarrow> number \<Rightarrow> number" where
  "round_dial v s =
     (let k = Math_round (v / s) * s;
          d = digitsAfterPoint s
      in toFixed k d)"

definition valueFromAngle :: "DialProps \<Rightarrow> number \<Rightarrow> number" where
  "valueFromAngle p ang =
     (let t = (ang - startAngle p) / (endAngle p - startAngle p);
          t = Math_min (Num 1) (Math_max (Num 0) t);
          raw = dial_min p + t * range_dial p
      in clamp p (round_dial raw (dial_step p)))"

text \<open>
  \<open>Math.atan2\<close> on exact reals, with the values ECMA-262 gives for infinite arguments.
\<close>

fun Math_atan2 :: "number \<Rightarrow> number \<Rightarrow> number" where
  "Math_atan2 (Num y) (Num x) =
     Num (if 0 < x then arctan (y / x)
          else if x < 0 then (if 0 \<le> y then arctan (y / x) + pi else arctan (y / x) - pi)
          else if 0 < y then pi / 2 else if y < 0 then - (pi / 2) else 0)"
| "Math_atan2 NaN _ = NaN"
| "Math_atan2 _ NaN = NaN"
| "Math_atan2 (Num y) PosInfinity = Num 0"
| "Math_atan2 (Num y) NegInfinity = Num (if 0 \<le> y then pi else - pi)"
| "Math_atan2 PosInfinity (Num x) = Num (pi / 2)"
| "Math_atan2 NegInfinity (Num x) = Num (- (pi / 2))"
| "Math_atan2 PosInfinity PosInfinity = Num (pi / 4)"
| "Math_atan2 PosInfinity NegInfinity = Num (3 * pi / 4)"
| "Math_atan2 NegInfinity PosInfinity = Num (- (pi / 4))"
| "Math_atan2 NegInfinity NegInfinity = Num (- (3 * pi / 4))"

text \<open>
  The bounding box of the rendered element, as \<open>getBoundingClientRect\<close> reports it.
  The reference to the element is empty until the element is mounted.
\<close>

record DOMRect =
  rect_left :: number
  rect_top :: number
  rect_width :: number
  rect_height :: number

text \<open>
  \<open>setFromPointer\<close> calls \<open>onChange\<close> at most once; the model returns the value passed
  to it, or \<open>None\<close> when the handler returns without a call.
\<close>

definition setFromPointer :: "DialProps \<Rightarrow> DOMRect option \<Rightarrow> number \<Rightarrow> number \<Rightarrow> number option" where
  "setFromPointer p ref clientX clientY =
     (case ref of
        None \<Rightarrow> None
      | Some box \<Rightarrow>
          (let x = clientX - (rect_left box + rect_width box / Num 2);
               y = clientY - (rect_top box + rect_height box / Num 2);
               ang = Math_atan2 y x
           in Some (valueFromAngle p ang)))"

definition coarse :: "DialProps \<Rightarrow> number" where
  "coarse p = Math_max (dial_step p * Num 10) (dial_step p)"

text \<open>\<open>onKeyDown\<close> for a key name and the state of the shift modifier.\<close>

definition onKeyDown :: "DialProps \<Rightarrow> string \<Rightarrow> bool \<Rightarrow> number option" where
  "onKeyDown p key shiftKey =
     (if disabled p then None
      else
        (let delta = (if shiftKey then coarse p else dial_step p) in
         if key = ''ArrowRight'' \<or> key = ''ArrowUp'' then Some (clamp p (dial_value p + delta))
         else if key = ''ArrowLeft'' \<or> key = ''ArrowDown'' then Some (clamp p (dial_value p - delta))
         else if key = ''PageUp'' then Some (clamp p (dial_value p + coarse p))
         else if key = ''PageDown'' then Some (clamp p (dial_value p - coarse p))
         else if key = ''Home'' then Some (dial_min p)
         else if key = ''End'' then Some (dial_max p)
         else None))"

subsection \<open>The live component\<close>

text \<open>
  A mounted dial: the properties of the last rendering, the reference to its element and
  the one mutable cell of the component, the drag flag. An event yields the next state
  and the value passed to \<open>onChange\<close>, if any. \<open>Render\<close> is the owner of the value
  rendering the component again with a value of its choice.
\<close>

record DialState =
  props :: DialProps
  ref :: "DOMRect option"
  dragging :: bool

datatype DialEvent =
    PointerDown number number
  | PointerMove number number
  | PointerUp
  | KeyDown string bool
  | Render number

fun dispatch :: "DialState \<Rightarrow> DialEvent \<Rightarrow> DialState \<times> number option" where
  "dispatch s (PointerDown clientX clientY) =
     (if disabled (props s) then (s, None)
      else (s\<lparr>dragging := True\<rparr>, setFromPointer (props s) (ref s) clientX clientY))"
| "dispatch s (PointerMove clientX clientY) =
     (if \<not> dragging s then (s, None)
      else (s, setFromPointer (props s) (ref s) clientX clientY))"
| "dispatch s PointerUp = (s\<lparr>dragging := False\<rparr>, None)"
| "dispatch s (KeyDown key shiftKey) = (s, onKeyDown (props s) key shiftKey)"
| "dispatch s (Render v) = (s\<lparr>props := (props s)\<lparr>dial_value := v\<rparr>\<rparr>, None)"

text \<open>The state after a sequence of events.\<close>

fun run :: "DialState \<Rightarrow> DialEvent list \<Rightarrow> DialState" where
  "run s [] = s"
| "run s (e # es) = run (fst (dispatch s e)) es"


section \<open>The heading control (react/HeadingControl.tsx)\<close>

record HeadingControlProps =
  heading_value :: number
  heading_step :: number
  snap :: bool

definition defaultHeadingProps :: "number \<Rightarrow> HeadingControlProps" where
  "defaultHeadingProps v = \<lparr>heading_value = v, heading_step = Num 1, snap = False\<rparr>"

definition cardinals :: "number list" where
  "cardinals = [Num 0, Num 90, Num 180, Num 270]"

text \<open>The normalisation \<open>((v % 360) + 360) % 360\<close>.\<close>

definition normalizeDeg :: "number \<Rightarrow> number" where
  "normalizeDeg v = ((v mod Num 360) + Num 360) mod Num 360"

text \<open>The \<open>reduce\<close> over the cardinals, started at the first of them.\<close>

definition closestCardinal :: "number \<Rightarrow> number" where
  "closestCardinal deg =
     foldl (\<lambda>acc cur. if \<bar>cur - deg\<bar> < \<bar>acc - deg\<bar> then cur else acc)
       (hd cardinals) cardinals"

text \<open>\<open>handleChange\<close> calls \<open>onChange\<close> once; the model returns the value passed.\<close>

definition handleChange :: "HeadingControlProps \<Rightarrow> number \<Rightarrow> number" where
  "handleChange h v =
     (let deg = normalizeDeg v in
      if snap h then
        (let closest = closestCardinal deg
         in if \<bar>closest - deg\<bar> < heading_step h then closest else deg)
      else deg)"

text \<open>The dial the control renders, and what the control emits on an event of that dial.\<close>

definition headingDial :: "HeadingControlProps \<Rightarrow> DialProps" where
  "headingDial h =
     \<lparr>dial_value = heading_value h, dial_min = Num 0, dial_max = Num 359,
      dial_step = heading_step h, dial_size = Num 160,
      startAngle = - Math_PI * Num 0.75, endAngle = Math_PI * Num 0.75,
      disabled = False\<rparr>"

section \<open>The speed control (react/SpeedControl.tsx)\<close>

record SpeedControlProps =
  speed_value :: Quantity
  speed_min :: "Quantity option"
  speed_max :: "Quantity option"
  speed_step :: "number option"

text \<open>
  The values a rendering derives from the properties. A conversion that throws makes
  the rendering throw, so each is a sum.
\<close>

definition toCurrent :: "SpeedControlProps \<Rightarrow> Quantity \<Rightarrow> error + Quantity" where
  "toCurrent c q =
     (let unit = qty_unit (speed_value c)
      in if qty_unit q = unit then Inr q else convert q unit)"

definition vmin :: "SpeedControlProps \<Rightarrow> error + number" where
  "vmin c =
     (case speed_min c of
        Some m \<Rightarrow> map_sum id qty_value (toCurrent c m)
      | None \<Rightarrow> Inr (Num 0))"

definition vmax :: "SpeedControlProps \<Rightarrow> error + number" where
  "vmax c =
     (let unit = qty_unit (speed_value c) in
      case speed_max c of
        Some m \<Rightarrow> map_sum id qty_value (toCurrent c m)
      | None \<Rightarrow>
          Inr (if unit = ''ms'' then Num 100
               else if unit = ''kmh'' then Num 200
               else if unit = ''mph'' then Num 125
               else Num 100))"

definition stp :: "SpeedControlProps \<Rightarrow> number" where
  "stp c =
     (let unit = qty_unit (speed_value c) in
      case speed_step c of
        Some s \<Rightarrow> s
      | None \<Rightarrow>
          (if unit = ''ms'' then Num 0.5
           else if unit = ''kmh'' then Num 5
           else if unit = ''mph'' then Num 5
           else Num 5))"




text \<open>The dial the control renders; its \<open>onChange\<close> is emitted in the current unit.\<close>

definition speedDial :: "SpeedControlProps \<Rightarrow> error + DialProps" where
  "speedDial c =
     (case (vmin c, vmax c) of
        (Inr lo, Inr hi) \<Rightarrow>
          Inr \<lparr>dial_value = qty_value (speed_value c), dial_min = lo, dial_max = hi,
               dial_step = stp c, dial_size = Num 160,
               startAngle = - Math_PI * Num 0.75, endAngle = Math_PI * Num 0.75,
               disabled = False\<rparr>
      | (Inl e, _) \<Rightarrow> Inl e
      | (_, Inl e) \<Rightarrow> Inl e)"

definition speedDial_onChange :: "SpeedControlProps \<Rightarrow> number \<Rightarrow> Quantity" where
  "speedDial_onChange c n = \<lparr>qty_value = n, qty_unit = qty_unit (speed_value c)\<rparr>"


section \<open>The core functions in binary64 arithmetic\<close>

text \<open>
  The language computes in IEEE 754 binary64: the result of an arithmetic operation is
  the exact result rounded to the nearest value with 53 significant bits, halves to the
  even neighbour, with gradual underflow below \<open>2^-1022\<close> and overflow to an infinity
  from \<open>2^1024 - 2^970\<close> on. \<open>binary64\<close> is this rounding of a real, \<open>fl\<close> its
  extension to the special values. For a non-zero \<open>x\<close> the spacing of the representable
  values around \<open>x\<close> is \<open>2^(e - 52)\<close>, with \<open>e\<close> the binary exponent of \<open>x\<close>, at least -1022.
\<close>

text \<open>The power \<open>2^e\<close> for an integer \<open>e\<close>.\<close>

definition pow2 :: "int \<Rightarrow> real" where
  "pow2 e = (if 0 \<le> e then 2 ^ nat e else 1 / 2 ^ nat (- e))"

text \<open>The binary exponent of \<open>x\<close>, held at -1022 in the subnormal range.\<close>

definition binade :: "real \<Rightarrow> int" where
  "binade x = max \<lfloor>log 2 \<bar>x\<bar>\<rfloor> (- 1022)"

text \<open>The nearest integer, a half going to the even neighbour.\<close>

definition roundHalfEven :: "real \<Rightarrow> int" where
  "roundHalfEven q =
     (let f = \<lfloor>q\<rfloor> in
      if q - of_int f < 1 / 2 then f
      else if 1 / 2 < q - of_int f then f + 1
      else if even f then f else f + 1)"

definition binary64 :: "real \<Rightarrow> number" where
  "binary64 x =
     (if x = 0 then Num 0
      else
        (let ulp = pow2 (binade x - 52);
             y = of_int (roundHalfEven (x / ulp)) * ulp
         in if pow2 1024 \<le> \<bar>y\<bar> then signedInfinity x else Num y))"

fun fl :: "number \<Rightarrow> number" where
  "fl (Num x) = binary64 x"
| "fl x = x"







definition factors_binary64 :: "Unit \<rightharpoonup> number" where
  "factors_binary64 = map_of
     [(''m'', fl (Num 1)),
      (''ft'', fl (Num 0.3048)),
      (''ms'', fl (Num 1)),
      (''kmh'', fl (fl (Num 1000) / fl (Num 3600))),
      (''mph'', fl (fl (Num 1609.344) / fl (Num 3600))),
      (''kts'', fl (fl (Num 1852) / fl (Num 3600)))]"

definition convert_binary64 :: "Quantity \<Rightarrow> Unit \<Rightarrow> error + Quantity" where
  "convert_binary64 qty to =
     (case (factors_binary64 (qty_unit qty), factors_binary64 to) of
        (Some fromFactor, Some toFactor) \<Rightarrow>
          (let canonical = fl (qty_value qty * fromFactor)
           in Inr \<lparr>qty_value = fl (canonical / toFactor), qty_unit = to\<rparr>)
      | _ \<Rightarrow> Inl (Error (''Cannot convert from '' @ qty_unit qty @ '' to '' @ to)))"

section \<open>Properties of the conversion\<close>






section \<open>Properties of the rounding\<close>

lemma fractionDigits_le: "fractionDigits f a \<le> f"
  by (induction f arbitrary: a) auto

lemma significantDigits_le: "significantDigits f y \<le> Suc f"
  by (induction f arbitrary: y) auto

lemma exponentTail_le: "k \<le> 17 \<Longrightarrow> exponentTail k e \<le> 21"
  by (auto simp: exponentTail_def)

lemma digitsAfterPoint_le: "digitsAfterPoint x \<le> 22"
proof (cases x)
  case (Num r)
  have "exponentTail (significantDigits 16 y) e \<le> 22" for y e
    using exponentTail_le [of "significantDigits 16 y" e] significantDigits_le [of 16 y]
    by simp
  moreover have "fractionDigits 22 \<bar>r\<bar> \<le> 22"
    by (rule fractionDigits_le)
  ultimately show ?thesis
    using Num by (simp add: digitsAfterPoint_def Let_def)
qed (simp_all add: digitsAfterPoint_def)

lemma toFixed_finite: "isFinite (toFixed x d) = isFinite x"
  by (cases x) simp_all

lemma rounded_zero_step: "Math_round (v / Num 0) * Num 0 = NaN"
  by (cases v) (simp_all add: signedInfinity_def)

lemma rounded_nonfinite_step: "\<not> isFinite step \<Longrightarrow> Math_round (v / step) * step = NaN"
  by (cases step; cases v) (simp_all add: signedInfinity_def)

text \<open>
  C8. Whenever the rounded result that \<open>roundToStep\<close> computes is not finite, the function
  returns its input \<open>v\<close>. This is the case for a step of zero and for every step that is
  not finite. The digit count passed to \<open>toFixed\<close> stays within the 100 digits that
  \<open>toFixed\<close> accepts, so the call does not raise, and a finite input never yields a
  result that is not finite.
\<close>

theorem roundToStep_degenerate:
  "(\<not> isFinite (toFixed (Math_round (v / step) * step) (decimals step)) \<longrightarrow>
      roundToStep v step = v) \<and>
   (step = Num 0 \<or> \<not> isFinite step \<longrightarrow> roundToStep v step = v) \<and>
   decimals step \<le> 100 \<and>
   (isFinite v \<longrightarrow> isFinite (roundToStep v step))"
proof (intro conjI impI)
  assume "\<not> isFinite (toFixed (Math_round (v / step) * step) (decimals step))"
  then show "roundToStep v step = v"
    by (simp add: roundToStep_def)
next
  assume "step = Num 0 \<or> \<not> isFinite step"
  then have "Math_round (v / step) * step = NaN"
    using rounded_zero_step rounded_nonfinite_step by blast
  then show "roundToStep v step = v"
    by (simp add: roundToStep_def)
next
  show "decimals step \<le> 100"
    using digitsAfterPoint_le [of step] by (simp add: decimals_def)
next
  assume "isFinite v"
  then show "isFinite (roundToStep v step)"
    by (simp add: roundToStep_def Let_def)
qed

text \<open>C8 at the value 7.3 and the step 0: the rounded result is \<open>NaN\<close>, and 7.3 is returned.\<close>

theorem roundToStep_degenerate_witness:
  "\<not> isFinite (toFixed (Math_round (Num 7.3 / Num 0) * Num 0) (decimals (Num 0))) \<and>
   roundToStep (Num 7.3) (Num 0) = Num 7.3 \<and>
   isFinite (roundToStep (Num 7.3) (Num 0))"
  using roundToStep_degenerate [of "Num 7.3" "Num 0"]
  by (simp add: signedInfinity_def)

section \<open>Properties of the heading control\<close>

text \<open>
  The normalisation of a finite value is its remainder modulo 360 in the mathematical
  sense: the value minus 360 times the floor of its 360th part.
\<close>

lemma toward_zero_int: "\<exists>k::int. toward_zero x = of_int k"
  by (simp add: toward_zero_def)

lemma toward_zero_frac_bounds: "- 1 < x - toward_zero x \<and> x - toward_zero x < 1"
  unfolding toward_zero_def by (auto; linarith)

lemma toward_zero_nonneg: "0 \<le> x \<Longrightarrow> 0 \<le> x - toward_zero x"
  unfolding toward_zero_def by (auto; linarith)

lemma normalizeDeg_Num: "normalizeDeg (Num v) = Num (v - 360 * of_int \<lfloor>v / 360\<rfloor>)"
proof -
  obtain k1 :: int where k1: "toward_zero (v / 360) = of_int k1"
    using toward_zero_int by blast
  define r2 where "r2 = v - 360 * of_int k1 + 360"
  obtain k2 :: int where k2: "toward_zero (r2 / 360) = of_int k2"
    using toward_zero_int by blast
  define r3 where "r3 = r2 - 360 * of_int k2"
  have "normalizeDeg (Num v) = Num (r2 - 360 * toward_zero (r2 / 360))"
    by (simp add: normalizeDeg_def k1 r2_def)
  then have n: "normalizeDeg (Num v) = Num r3"
    by (simp only: k2 r3_def)
  have b1: "- 1 < v / 360 - of_int k1" "v / 360 - of_int k1 < 1"
    using toward_zero_frac_bounds [of "v / 360"] k1 by simp_all
  have r2pos: "0 \<le> r2 / 360"
    using b1 by (simp add: r2_def field_simps)
  have b3: "0 \<le> r2 / 360 - of_int k2" "r2 / 360 - of_int k2 < 1"
    using toward_zero_nonneg [OF r2pos] toward_zero_frac_bounds [of "r2 / 360"] k2 by simp_all
  have r3b: "0 \<le> r3" "r3 < 360"
    using b3 by (simp_all add: r3_def field_simps)
  have r3eq: "r3 = v - 360 * of_int (k1 + k2 - 1)"
    by (simp add: r3_def r2_def algebra_simps)
  have "\<lfloor>v / 360\<rfloor> = k1 + k2 - 1"
  proof (rule floor_unique)
    show "of_int (k1 + k2 - 1) \<le> v / 360" using r3b(1) r3eq by (simp add: field_simps)
    show "v / 360 < of_int (k1 + k2 - 1) + 1" using r3b(2) r3eq by (simp add: field_simps)
  qed
  then show ?thesis using n r3eq by simp
qed

lemma normalizeDeg_bounds:
  "\<exists>r. normalizeDeg (Num v) = Num r \<and> 0 \<le> r \<and> r < 360"
proof -
  have "of_int \<lfloor>v / 360\<rfloor> \<le> v / 360" "v / 360 < of_int \<lfloor>v / 360\<rfloor> + 1"
    by linarith+
  then have "0 \<le> v - 360 * of_int \<lfloor>v / 360\<rfloor>" "v - 360 * of_int \<lfloor>v / 360\<rfloor> < 360"
    by (simp_all add: field_simps)
  then show ?thesis
    by (simp add: normalizeDeg_Num)
qed

lemma normalizeDeg_int: "normalizeDeg (Num (of_int d)) = Num (of_int (d mod 360))"
proof -
  have "\<lfloor>(of_int d :: real) / 360\<rfloor> = d div 360"
    using floor_divide_of_int_eq [of d 360, where ?'a = real] by simp
  moreover have "d mod 360 = d - 360 * (d div 360)"
    by (simp add: minus_mult_div_eq_mod mult.commute)
  ultimately show ?thesis
    by (simp add: normalizeDeg_Num)
qed


lemma normalizeDeg_cases:
  "normalizeDeg v = NaN \<or> (\<exists>r. normalizeDeg v = Num r \<and> 0 \<le> r \<and> r < 360)"
proof (cases v)
  case (Num x)
  then show ?thesis using normalizeDeg_bounds [of x] by simp
qed (simp_all add: normalizeDeg_def)

lemma closestCardinal_Num:
  "\<exists>c. closestCardinal (Num r) = Num c \<and> Num c \<in> set cardinals \<and>
       (\<forall>c'. Num c' \<in> set cardinals \<longrightarrow> \<bar>c - r\<bar> \<le> \<bar>c' - r\<bar>)"
  by (auto simp: closestCardinal_def cardinals_def minus_number_def)

lemma closestCardinal_NaN: "closestCardinal NaN = Num 0"
  by (simp add: closestCardinal_def cardinals_def minus_number_def)

lemma less_number_mono: "Num a < s \<Longrightarrow> b \<le> a \<Longrightarrow> Num b < s"
  by (cases s) simp_all

lemma cardinals_Num: "c \<in> set cardinals \<Longrightarrow> \<exists>x. c = Num x"
  by (auto simp: cardinals_def)

lemma snap_decision_Num:
  "(\<exists>c\<in>set cardinals. \<bar>c - deg\<bar> < s) \<longleftrightarrow> \<bar>closestCardinal deg - deg\<bar> < s"
  if Num: "deg = Num r"
proof -
  obtain c where c: "closestCardinal (Num r) = Num c" "Num c \<in> set cardinals"
      "\<And>c'. Num c' \<in> set cardinals \<Longrightarrow> \<bar>c - r\<bar> \<le> \<bar>c' - r\<bar>"
    using closestCardinal_Num [of r] by blast
  show ?thesis
  proof
    assume "\<exists>c\<in>set cardinals. \<bar>c - deg\<bar> < s"
    then obtain c' where c': "Num c' \<in> set cardinals" "\<bar>Num c' - Num r\<bar> < s"
      using Num cardinals_Num by blast
    then have "Num \<bar>c' - r\<bar> < s" by (simp add: minus_number_def)
    then have "Num \<bar>c - r\<bar> < s" using c(3) [OF c'(1)] less_number_mono by blast
    then show "\<bar>closestCardinal deg - deg\<bar> < s" using Num c(1) by (simp add: minus_number_def)
  next
    assume "\<bar>closestCardinal deg - deg\<bar> < s"
    then show "\<exists>c\<in>set cardinals. \<bar>c - deg\<bar> < s" using Num c(1,2) by auto
  qed
qed

lemma snap_decision:
  "(\<exists>c\<in>set cardinals. \<bar>c - normalizeDeg v\<bar> < s) \<longleftrightarrow>
   \<bar>closestCardinal (normalizeDeg v) - normalizeDeg v\<bar> < s"
  using normalizeDeg_cases [of v]
proof
  assume "normalizeDeg v = NaN"
  then show ?thesis
    by (auto simp: minus_number_def closestCardinal_NaN dest!: cardinals_Num)
next
  assume "\<exists>r. normalizeDeg v = Num r \<and> 0 \<le> r \<and> r < 360"
  then show ?thesis using snap_decision_Num by blast
qed




lemma cardinals_int: "c \<in> set cardinals \<Longrightarrow> \<exists>e::int. c = Num (of_int e) \<and> 0 \<le> e \<and> e < 360"
proof -
  assume "c \<in> set cardinals"
  then consider "c = Num (of_int 0)" | "c = Num (of_int 90)" | "c = Num (of_int 180)"
    | "c = Num (of_int 270)"
    by (auto simp: cardinals_def)
  then show ?thesis
  proof cases
    case 1 then show ?thesis by (intro exI [of _ 0]) simp
  next
    case 2 then show ?thesis by (intro exI [of _ 90]) simp
  next
    case 3 then show ?thesis by (intro exI [of _ 180]) simp
  next
    case 4 then show ?thesis by (intro exI [of _ 270]) simp
  qed
qed

text \<open>
  C6, as amended. For every integer \<open>d\<close> the emitted value is an integer in \<open>[0, 360)\<close>.
  It is \<open>d mod 360\<close>, hence congruent to \<open>d\<close> modulo 360, unless snap is enabled and a
  cardinal is closer than one step to \<open>d mod 360\<close>; then the emitted value is a cardinal.
\<close>

theorem heading_emits_normalized:
  "\<exists>e::int. handleChange h (Num (of_int d)) = Num (of_int e) \<and> 0 \<le> e \<and> e < 360 \<and>
     (if snap h \<and> (\<exists>c\<in>set cardinals. \<bar>c - Num (of_int (d mod 360))\<bar> < heading_step h)
      then Num (of_int e) \<in> set cardinals
      else e = d mod 360 \<and> e mod 360 = d mod 360)"
proof (cases "snap h \<and> (\<exists>c\<in>set cardinals. \<bar>c - Num (of_int (d mod 360))\<bar> < heading_step h)")
  case True
  then have near: "\<exists>c\<in>set cardinals. \<bar>c - normalizeDeg (Num (of_int d))\<bar> < heading_step h"
    by (simp add: normalizeDeg_int)
  have "handleChange h (Num (of_int d)) = closestCardinal (normalizeDeg (Num (of_int d)))"
    using True near snap_decision [of "Num (of_int d)" "heading_step h"]
    by (simp add: handleChange_def Let_def)
  moreover have "closestCardinal (normalizeDeg (Num (of_int d))) \<in> set cardinals"
    using closestCardinal_Num [of "of_int (d mod 360)"] by (auto simp: normalizeDeg_int)
  ultimately obtain e :: int where "handleChange h (Num (of_int d)) = Num (of_int e)"
      "0 \<le> e" "e < 360" "Num (of_int e) \<in> set cardinals"
    using cardinals_int by metis
  then show ?thesis using True by auto
next
  case False
  then have "handleChange h (Num (of_int d)) = Num (of_int (d mod 360))"
    using snap_decision [of "Num (of_int d)" "heading_step h"]
    by (auto simp: handleChange_def Let_def normalizeDeg_int)
  then show ?thesis using False
    by (intro exI [of _ "d mod 360"]) auto
qed

text \<open>The amended C6 at \<open>d = -725\<close> with snap disabled: the emitted value is 355.\<close>

theorem heading_emits_normalized_witness:
  "handleChange \<lparr>heading_value = Num 0, heading_step = Num 1, snap = False\<rparr>
       (Num (of_int (- 725))) = Num (of_int 355) \<and>
   (355::int) mod 360 = (- 725) mod 360"
proof -
  let ?h = "\<lparr>heading_value = Num 0, heading_step = Num 1, snap = False\<rparr>"
  obtain e :: int where e: "handleChange ?h (Num (of_int (- 725))) = Num (of_int e)"
      "e = (- 725) mod 360"
    using heading_emits_normalized [of ?h "- 725"] by auto
  then show ?thesis by simp
qed

text \<open>
  C6, as stated, fails with snap enabled and a step of 2: the candidate 451 is emitted
  as 90, which is not congruent to 451 modulo 360.
\<close>

theorem heading_snap_breaks_congruence_counterexample:
  "handleChange \<lparr>heading_value = Num 0, heading_step = Num 2, snap = True\<rparr>
       (Num (of_int 451)) = Num (of_int 90) \<and>
   (90::int) mod 360 \<noteq> 451 mod 360"
proof -
  have "normalizeDeg (Num 451) = Num 91"
    using normalizeDeg_int [of 451] by simp
  then show ?thesis
    by (simp add: handleChange_def closestCardinal_def cardinals_def minus_number_def)
qed



section \<open>Properties of the dial\<close>





lemma toFixed_Num: "\<exists>r. toFixed (Num v) d = Num r"
  by simp




















lemma setFromPointer_ignores_value:
  "setFromPointer (p\<lparr>dial_value := v\<rparr>) r clientX clientY = setFromPointer p r clientX clientY"
  by (simp add: setFromPointer_def valueFromAngle_def clamp_def range_dial_def split: option.splits)

lemma dispatch_keeps_configuration:
  "ref (fst (dispatch s e)) = ref s \<and>
   (\<exists>v. props (fst (dispatch s e)) = (props s)\<lparr>dial_value := v\<rparr>)"
proof (cases e)
  case (Render v)
  then show ?thesis by auto
qed (auto intro: exI [of _ "dial_value (props s)"])

lemma run_keeps_configuration:
  "ref (run s es) = ref s \<and> (\<exists>v. props (run s es) = (props s)\<lparr>dial_value := v\<rparr>)"
proof (induction es arbitrary: s)
  case Nil
  show ?case by (auto intro: exI [of _ "dial_value (props s)"])
next
  case (Cons e es)
  obtain v where v: "ref (fst (dispatch s e)) = ref s"
      "props (fst (dispatch s e)) = (props s)\<lparr>dial_value := v\<rparr>"
    using dispatch_keeps_configuration [of s e] by blast
  obtain v' where "ref (run (fst (dispatch s e)) es) = ref (fst (dispatch s e))"
      "props (run (fst (dispatch s e)) es) = (props (fst (dispatch s e)))\<lparr>dial_value := v'\<rparr>"
    using Cons.IH [of "fst (dispatch s e)"] by blast
  then show ?case using v by auto
qed

text \<open>
  C9. The value a pointer position resolves to is the same after any sequence of events
  as before it: it depends on the range, the step, the arc and the bounding box only,
  not on the drag flag or on the value the owner last rendered. A pointer-down emits
  this value, a pointer-move emits this value or nothing, and the value is
  \<open>valueFromAngle\<close> of \<open>atan2\<close> of the offset of the pointer from the centre of the box.
\<close>

theorem pointer_mapping_deterministic:
  "setFromPointer (props (run s es)) (ref (run s es)) clientX clientY
     = setFromPointer (props s) (ref s) clientX clientY \<and>
   snd (dispatch (run s es) (PointerDown clientX clientY))
     = snd (dispatch s (PointerDown clientX clientY)) \<and>
   (snd (dispatch (run s es) (PointerMove clientX clientY)) = None \<or>
    snd (dispatch (run s es) (PointerMove clientX clientY))
      = setFromPointer (props s) (ref s) clientX clientY) \<and>
   setFromPointer (props s) (ref s) clientX clientY =
     (case ref s of
        None \<Rightarrow> None
      | Some box \<Rightarrow>
          Some (valueFromAngle (props s)
            (Math_atan2 (clientY - (rect_top box + rect_height box / Num 2))
               (clientX - (rect_left box + rect_width box / Num 2)))))"
proof -
  obtain v where c: "ref (run s es) = ref s" "props (run s es) = (props s)\<lparr>dial_value := v\<rparr>"
    using run_keeps_configuration [of s es] by blast
  have same: "setFromPointer (props (run s es)) (ref (run s es)) clientX clientY
     = setFromPointer (props s) (ref s) clientX clientY"
    by (simp add: c setFromPointer_ignores_value)
  moreover have "disabled (props (run s es)) = disabled (props s)"
    by (simp add: c)
  ultimately show ?thesis
    by (simp add: setFromPointer_def Let_def split: option.splits)
qed

text \<open>
  C9 on the default dial in a box of 160 by 160: after a drag, a key press and two
  renderings, a pointer one pixel right of the centre resolves to 50, as it does at
  the start.
\<close>

theorem pointer_mapping_deterministic_witness:
  "snd (dispatch
      (run \<lparr>props = defaultDialProps (Num 20),
            ref = Some \<lparr>rect_left = Num 0, rect_top = Num 0, rect_width = Num 160,
                        rect_height = Num 160\<rparr>,
            dragging = False\<rparr>
         [PointerDown (Num 10) (Num 20), Render (Num 7), PointerUp, KeyDown ''End'' False,
          Render (Num 100)])
      (PointerDown (Num 81) (Num 80)))
   = snd (dispatch
      \<lparr>props = defaultDialProps (Num 20),
       ref = Some \<lparr>rect_left = Num 0, rect_top = Num 0, rect_width = Num 160,
                   rect_height = Num 160\<rparr>,
       dragging = False\<rparr>
      (PointerDown (Num 81) (Num 80))) \<and>
   snd (dispatch
      \<lparr>props = defaultDialProps (Num 20),
       ref = Some \<lparr>rect_left = Num 0, rect_top = Num 0, rect_width = Num 160,
                   rect_height = Num 160\<rparr>,
       dragging = False\<rparr>
      (PointerDown (Num 81) (Num 80))) = Some (Num 50)"
proof -
  let ?s = "\<lparr>props = defaultDialProps (Num 20),
       ref = Some \<lparr>rect_left = Num 0, rect_top = Num 0, rect_width = Num 160,
                   rect_height = Num 160\<rparr>,
       dragging = False\<rparr>"
  have "snd (dispatch ?s (PointerDown (Num 81) (Num 80))) = Some (Num 50)"
    by (simp add: defaultDialProps_def Math_PI_def setFromPointer_def valueFromAngle_def
        range_dial_def clamp_def round_dial_def digitsAfterPoint_def minus_number_def
        Math_max_def Math_min_def)
  then show ?thesis
    using pointer_mapping_deterministic [of ?s
        "[PointerDown (Num 10) (Num 20), Render (Num 7), PointerUp, KeyDown ''End'' False,
          Render (Num 100)]" "Num 81" "Num 80"]
    by simp
qed

lemma Math_atan2_Num: "\<exists>t. Math_atan2 (Num y) (Num x) = Num t"
  by simp









section \<open>Properties of binary64 rounding\<close>

text \<open>
  Rounding has a relative error of at most \<open>2^-53\<close> in the normal range, overflows from
  \<open>2^1024\<close> on, and leaves a representable value unchanged.
\<close>

lemma pow2_powr: "pow2 e = 2 powr (of_int e)"
  by (simp add: pow2_def powr_real_of_int field_simps)

lemma pow2_pos: "0 < pow2 e"
  by (simp add: pow2_powr)

lemma pow2_add: "pow2 (a + b) = pow2 a * pow2 b"
  by (simp add: pow2_powr powr_add)

lemma pow2_mono: "a \<le> b \<Longrightarrow> pow2 a \<le> pow2 b"
  by (simp add: pow2_powr)

lemma pow2_nat: "pow2 (int n) = 2 ^ n"
  by (simp add: pow2_def)

lemma roundHalfEven_error: "\<bar>of_int (roundHalfEven q) - q\<bar> \<le> 1 / 2"
  unfolding roundHalfEven_def Let_def by (auto; linarith)

lemma roundHalfEven_int: "roundHalfEven (of_int m) = m"
  by (simp add: roundHalfEven_def)

lemma roundHalfEven_mono_int: "of_int m \<le> q \<Longrightarrow> m \<le> roundHalfEven q"
  unfolding roundHalfEven_def Let_def by (auto simp: le_floor_iff; linarith)

lemma binade_lower: "x \<noteq> 0 \<Longrightarrow> pow2 (- 1022) \<le> \<bar>x\<bar> \<Longrightarrow> pow2 (binade x) \<le> \<bar>x\<bar>"
proof -
  assume x: "x \<noteq> 0" and lo: "pow2 (- 1022) \<le> \<bar>x\<bar>"
  have "pow2 \<lfloor>log 2 \<bar>x\<bar>\<rfloor> \<le> \<bar>x\<bar>"
    using floor_log_eq_powr_iff [of "\<bar>x\<bar>" 2 "\<lfloor>log 2 \<bar>x\<bar>\<rfloor>"] x by (simp add: pow2_powr)
  then show ?thesis using lo by (simp add: binade_def max_def)
qed

lemma binade_upper: "x \<noteq> 0 \<Longrightarrow> \<bar>x\<bar> < pow2 (binade x + 1)"
proof -
  assume x: "x \<noteq> 0"
  have "\<bar>x\<bar> < pow2 (\<lfloor>log 2 \<bar>x\<bar>\<rfloor> + 1)"
    using floor_log_eq_powr_iff [of "\<bar>x\<bar>" 2 "\<lfloor>log 2 \<bar>x\<bar>\<rfloor>"] x by (simp add: pow2_powr)
  moreover have "pow2 (\<lfloor>log 2 \<bar>x\<bar>\<rfloor> + 1) \<le> pow2 (binade x + 1)"
    by (rule pow2_mono) (simp add: binade_def)
  ultimately show ?thesis by linarith
qed



lemma pow2_less_iff: "pow2 a < pow2 b \<longleftrightarrow> a < b"
  by (simp add: pow2_powr)

lemma pow2_numeral: "(2::real) ^ n = pow2 (int n)"
  by (simp add: pow2_nat)

lemma binary64_rel:
  assumes "pow2 (- 1022) \<le> \<bar>x\<bar>" "\<bar>x\<bar> \<le> pow2 1023"
  shows "\<exists>d. \<bar>d\<bar> \<le> pow2 (- 53) \<and> binary64 x = Num (x * (1 + d))"
proof -
  have x: "x \<noteq> 0" using assms(1) pow2_pos [of "- 1022"] by auto
  define ulp where "ulp = pow2 (binade x - 52)"
  define y where "y = of_int (roundHalfEven (x / ulp)) * ulp"
  have ulp: "0 < ulp" by (simp add: ulp_def pow2_pos)
  have "\<bar>of_int (roundHalfEven (x / ulp)) - x / ulp\<bar> * ulp \<le> 1 / 2 * ulp"
    using roundHalfEven_error [of "x / ulp"] ulp by (simp add: mult_right_mono)
  moreover have "\<bar>of_int (roundHalfEven (x / ulp)) - x / ulp\<bar> * ulp = \<bar>y - x\<bar>"
  proof -
    have "y - x = (of_int (roundHalfEven (x / ulp)) - x / ulp) * ulp"
      using ulp by (simp add: y_def field_simps)
    then show ?thesis using ulp by (simp add: abs_mult)
  qed
  ultimately have err: "\<bar>y - x\<bar> \<le> ulp / 2" by simp
  have "ulp = pow2 (binade x) * pow2 (- 52)"
    unfolding ulp_def using pow2_add [of "binade x" "- 52"] by simp
  then have "ulp \<le> \<bar>x\<bar> * pow2 (- 52)"
    using binade_lower [OF x assms(1)] pow2_pos [of "- 52"] by (simp add: mult_right_mono)
  moreover have "pow2 (- 52) / 2 = pow2 (- 53)"
    by (simp add: pow2_def)
  ultimately have rel: "\<bar>y - x\<bar> \<le> \<bar>x\<bar> * pow2 (- 53)"
    using err by (simp add: field_simps)
  define d where "d = (y - x) / x"
  have d1: "x * (1 + d) = y" using x by (simp add: d_def field_simps)
  have "\<bar>d\<bar> = \<bar>y - x\<bar> / \<bar>x\<bar>" by (simp add: d_def)
  also have "\<dots> \<le> pow2 (- 53)"
    using rel x by (simp add: field_simps)
  finally have d2: "\<bar>d\<bar> \<le> pow2 (- 53)" .
  have "\<bar>y\<bar> \<le> \<bar>x\<bar> + \<bar>y - x\<bar>" by linarith
  also have "\<dots> \<le> \<bar>x\<bar> * (1 + pow2 (- 53))" using rel by (simp add: algebra_simps)
  also have "\<dots> \<le> pow2 1023 * (1 + pow2 (- 53))"
    using assms(2) pow2_pos [of "- 53"] by (intro mult_right_mono) simp_all
  also have "\<dots> < pow2 1023 * 2"
    using pow2_pos [of 1023] pow2_less_iff [of "- 53" 0] by (simp add: pow2_def [of 0])
  also have "\<dots> = pow2 1024"
    using pow2_add [of 1023 1] by (simp add: pow2_def [of 1])
  finally have "\<not> pow2 1024 \<le> \<bar>y\<bar>" by simp
  then have "binary64 x = Num y"
    using x by (simp add: binary64_def Let_def ulp_def y_def)
  then show ?thesis using d1 d2 by auto
qed

lemma binary64_overflow:
  assumes "pow2 1024 \<le> x"
  shows "binary64 x = PosInfinity"
proof -
  have x: "0 < x" using assms pow2_pos [of 1024] by linarith
  have lo: "pow2 (- 1022) \<le> \<bar>x\<bar>"
  proof -
    have "pow2 (- 1022) \<le> pow2 1024" by (rule pow2_mono) simp
    then show ?thesis using assms by simp
  qed
  have b: "pow2 (binade x) \<le> x" "x < pow2 (binade x + 1)"
    using binade_lower [OF _ lo] binade_upper [of x] x by simp_all
  have "pow2 1024 < pow2 (binade x + 1)"
    using assms b(2) by linarith
  then have b1024: "1024 \<le> binade x" by (simp add: pow2_less_iff)
  define ulp where "ulp = pow2 (binade x - 52)"
  have ulp: "0 < ulp" by (simp add: ulp_def pow2_pos)
  have split: "pow2 (binade x) = pow2 52 * ulp"
    unfolding ulp_def using pow2_add [of 52 "binade x - 52"] by simp
  then have "pow2 52 * ulp \<le> x" using b(1) by simp
  then have "pow2 52 \<le> x / ulp" using ulp by (simp add: field_simps)
  moreover have "pow2 52 = of_int (2 ^ 52)" by (simp add: pow2_def)
  ultimately have "2 ^ 52 \<le> roundHalfEven (x / ulp)"
    using roundHalfEven_mono_int [of "2 ^ 52" "x / ulp"] by simp
  then have "(of_int (2 ^ 52) :: real) \<le> of_int (roundHalfEven (x / ulp))"
    by (simp only: of_int_le_iff)
  then have "pow2 52 * ulp \<le> of_int (roundHalfEven (x / ulp)) * ulp"
    using ulp \<open>pow2 52 = of_int (2 ^ 52)\<close> by (simp only: mult_le_cancel_right_pos)
  then have "pow2 (binade x) \<le> of_int (roundHalfEven (x / ulp)) * ulp"
    using split by simp
  moreover have "pow2 1024 \<le> pow2 (binade x)" using b1024 by (rule pow2_mono)
  ultimately have "pow2 1024 \<le> of_int (roundHalfEven (x / ulp)) * ulp"
    by linarith
  then have "pow2 1024 \<le> \<bar>of_int (roundHalfEven (x / ulp)) * ulp\<bar>" by linarith
  then show ?thesis
    using x by (simp add: binary64_def Let_def ulp_def signedInfinity_def)
qed

lemma binary64_exact:
  assumes "x = of_int m * pow2 e" "\<bar>m\<bar> < 2 ^ 53" "- 1074 \<le> e" "\<bar>x\<bar> < pow2 1024"
  shows "binary64 x = Num x"
proof (cases "x = 0")
  case True
  then show ?thesis by (simp add: binary64_def)
next
  case False
  have "\<bar>x\<bar> = of_int \<bar>m\<bar> * pow2 e"
    using assms(1) pow2_pos [of e] by (simp add: abs_mult)
  also have "\<dots> < of_int (2 ^ 53) * pow2 e"
    using assms(2) pow2_pos [of e] by (simp only: mult_less_cancel_right_pos of_int_less_iff)
  also have "\<dots> = pow2 (e + 53)"
    using pow2_add [of e 53] by (simp add: pow2_def)
  finally have up: "\<bar>x\<bar> < pow2 (e + 53)" .
  have "\<lfloor>log 2 \<bar>x\<bar>\<rfloor> < e + 53"
  proof (rule ccontr)
    assume "\<not> \<lfloor>log 2 \<bar>x\<bar>\<rfloor> < e + 53"
    then have "pow2 (e + 53) \<le> pow2 \<lfloor>log 2 \<bar>x\<bar>\<rfloor>" by (intro pow2_mono) simp
    moreover have "pow2 \<lfloor>log 2 \<bar>x\<bar>\<rfloor> \<le> \<bar>x\<bar>"
      using floor_log_eq_powr_iff [of "\<bar>x\<bar>" 2 "\<lfloor>log 2 \<bar>x\<bar>\<rfloor>"] False by (simp add: pow2_powr)
    ultimately show False using up by linarith
  qed
  then have be: "binade x - 52 \<le> e"
    using assms(3) by (simp add: binade_def max_def)
  define n where "n = nat (e - (binade x - 52))"
  have "pow2 e = pow2 (int n) * pow2 (binade x - 52)"
    using pow2_add [of "int n" "binade x - 52"] be by (simp add: n_def)
  then have "x = of_int (m * 2 ^ n) * pow2 (binade x - 52)"
    using assms(1) by (simp add: pow2_nat)
  then have "x / pow2 (binade x - 52) = of_int (m * 2 ^ n)"
    using pow2_pos [of "binade x - 52"] by (simp add: nonzero_divide_eq_eq)
  then have "of_int (roundHalfEven (x / pow2 (binade x - 52))) * pow2 (binade x - 52) = x"
    using pow2_pos [of "binade x - 52"] roundHalfEven_int [of "m * 2 ^ n"]
    by (metis nonzero_eq_divide_eq less_irrefl)
  then show ?thesis
    using False assms(4) by (simp add: binary64_def Let_def)
qed


lemma binary64_int: "\<bar>m\<bar> < 2 ^ 53 \<Longrightarrow> binary64 (of_int m) = Num (of_int m)"
proof -
  assume m: "\<bar>m\<bar> < 2 ^ 53"
  then have "\<bar>(of_int m :: real)\<bar> < of_int (2 ^ 53)"
    by (metis of_int_abs of_int_less_iff)
  also have "\<dots> = pow2 53" by (simp add: pow2_def)
  also have "\<dots> \<le> pow2 1024" by (rule pow2_mono) simp
  finally have "\<bar>(of_int m :: real)\<bar> < pow2 1024" .
  then show ?thesis
    using binary64_exact [of "of_int m" m 0] m by (simp add: pow2_def)
qed

lemma binary64_small:
  assumes "1 / 4 \<le> \<bar>x\<bar>" "\<bar>x\<bar> \<le> 2048"
  shows "\<exists>d. \<bar>d\<bar> \<le> pow2 (- 53) \<and> binary64 x = Num (x * (1 + d))"
proof (rule binary64_rel)
  have "pow2 (- 1022) \<le> pow2 (- 2)" by (rule pow2_mono) simp
  then show "pow2 (- 1022) \<le> \<bar>x\<bar>" using assms(1) by (simp add: pow2_def [of "- 2"])
  have "pow2 11 \<le> pow2 1023" by (rule pow2_mono) simp
  then show "\<bar>x\<bar> \<le> pow2 1023" using assms(2) by (simp add: pow2_def [of 11])
qed

lemma unit_roundoff: "pow2 (- 53) \<le> 1 / 10 ^ 10"
  by (simp add: pow2_def)

lemma factors_binary64_bounds:
  assumes "factors_binary64 u = Some f"
  shows "\<exists>r. f = Num r \<and> 1 / 4 \<le> r \<and> r \<le> 4"
proof -
  have one: "fl (Num 1) = Num 1"
    using binary64_int [of 1] by simp
  have ints: "fl (Num 1000) = Num 1000" "fl (Num 3600) = Num 3600" "fl (Num 1852) = Num 1852"
    using binary64_int [of 1000] binary64_int [of 3600] binary64_int [of 1852] by simp_all
  have approx: "\<exists>r. fl (Num x) = Num r \<and> x * (1 - 1 / 10 ^ 10) \<le> r \<and> r \<le> x * (1 + 1 / 10 ^ 10)"
    if "1 / 4 \<le> x" "x \<le> 2048" for x
  proof -
    have "1 / 4 \<le> \<bar>x\<bar>" "\<bar>x\<bar> \<le> 2048"
      using that by linarith+
    then obtain d where d: "\<bar>d\<bar> \<le> pow2 (- 53)" "binary64 x = Num (x * (1 + d))"
      using binary64_small [of x] by blast
    have "\<bar>d\<bar> \<le> 1 / 10 ^ 10" using d(1) unit_roundoff by linarith
    then have "- (1 / 10 ^ 10) \<le> d" "d \<le> 1 / 10 ^ 10" by linarith+
    then have "x * (1 - 1 / 10 ^ 10) \<le> x * (1 + d)" "x * (1 + d) \<le> x * (1 + 1 / 10 ^ 10)"
      using that(1) by (simp_all add: mult_left_mono)
    then show ?thesis using d(2) by auto
  qed
  obtain ft where ft: "fl (Num 0.3048) = Num ft" "1 / 4 \<le> ft" "ft \<le> 4"
    using approx [of "0.3048"] by auto
  obtain kmh where kmh: "fl (Num (1000 / 3600)) = Num kmh" "1 / 4 \<le> kmh" "kmh \<le> 4"
    using approx [of "1000 / 3600"] by auto
  obtain kts where kts: "fl (Num (1852 / 3600)) = Num kts" "1 / 4 \<le> kts" "kts \<le> 4"
    using approx [of "1852 / 3600"] by auto
  obtain mile where mile: "fl (Num 1609.344) = Num mile" "1609 \<le> mile" "mile \<le> 1610"
    using approx [of "1609.344"] by auto
  have "1 / 4 \<le> mile / 3600" "mile / 3600 \<le> 2048"
    using mile(2,3) by simp_all
  then obtain mph where m: "fl (Num (mile / 3600)) = Num mph"
      "mile / 3600 * (1 - 1 / 10 ^ 10) \<le> mph" "mph \<le> mile / 3600 * (1 + 1 / 10 ^ 10)"
    using approx [of "mile / 3600"] by blast
  have mph: "fl (Num (mile / 3600)) = Num mph" "1 / 4 \<le> mph" "mph \<le> 4"
    using m mile(2,3) by simp_all
  have "factors_binary64 = map_of
     [(''m'', Num 1), (''ft'', Num ft), (''ms'', Num 1), (''kmh'', Num kmh),
      (''mph'', Num mph), (''kts'', Num kts)]"
    using one ints ft(1) kmh(1) kts(1) mile(1) mph(1) by (simp add: factors_binary64_def)
  with assms have "map_of
     [(''m'', Num 1), (''ft'', Num ft), (''ms'', Num 1), (''kmh'', Num kmh),
      (''mph'', Num mph), (''kts'', Num kts)] u = Some f"
    by (simp only:)
  then show ?thesis
    using ft(2,3) kmh(2,3) kts(2,3) mph(2,3)
    by (auto split: if_splits)
qed


lemma level_mult:
  fixes V x g :: real
  assumes "V / 4 ^ k \<le> \<bar>x\<bar>" "\<bar>x\<bar> \<le> 4 ^ k * V" "0 \<le> V" "1 / 4 \<le> g" "g \<le> 4"
  shows "V / 4 ^ Suc k \<le> \<bar>x * g\<bar>" "\<bar>x * g\<bar> \<le> 4 ^ Suc k * V"
    "V / 4 ^ Suc k \<le> \<bar>x / g\<bar>" "\<bar>x / g\<bar> \<le> 4 ^ Suc k * V"
proof -
  have g: "0 < g" using assms(4) by linarith
  have lo: "0 \<le> V / 4 ^ k" using assms(3) by simp
  have "V / 4 ^ k * (1 / 4) \<le> \<bar>x\<bar> * g"
    using assms(1,4) lo by (intro mult_mono) simp_all
  then show "V / 4 ^ Suc k \<le> \<bar>x * g\<bar>" using g by (simp add: abs_mult)
  have "\<bar>x\<bar> * g \<le> 4 ^ k * V * 4"
    using assms(2,5) g by (intro mult_mono) simp_all
  then show "\<bar>x * g\<bar> \<le> 4 ^ Suc k * V" using g by (simp add: abs_mult mult.commute)
  have ig: "1 / 4 \<le> 1 / g" "1 / g \<le> 4"
    using assms(4,5) g by (simp_all add: field_simps)
  have "V / 4 ^ k * (1 / 4) \<le> \<bar>x\<bar> * (1 / g)"
    using assms(1) ig(1) lo by (intro mult_mono) simp_all
  then show "V / 4 ^ Suc k \<le> \<bar>x / g\<bar>" using g by (simp add: abs_mult)
  have "\<bar>x\<bar> * (1 / g) \<le> 4 ^ k * V * 4"
    using assms(2) ig(2) g by (intro mult_mono) simp_all
  then show "\<bar>x / g\<bar> \<le> 4 ^ Suc k * V" using g by (simp add: abs_mult mult.commute)
qed

lemma binary64_range: "pow2 (- 1022) \<le> 1 / 10 ^ 300 / 4 ^ 7" "4 ^ 7 * 10 ^ 300 \<le> pow2 1023"
  by (simp_all add: pow2_def)

lemma level_round:
  fixes V x :: real
  assumes "V / 4 ^ k \<le> \<bar>x\<bar>" "\<bar>x\<bar> \<le> 4 ^ k * V" "k \<le> 7" "1 / 10 ^ 300 \<le> V" "V \<le> 10 ^ 300"
  shows "\<exists>g. 1 / 4 \<le> g \<and> g \<le> 4 \<and> \<bar>g - 1\<bar> \<le> 1 / 10 ^ 10 \<and> binary64 x = Num (x * g)"
proof -
  have "(0::real) < 1 / 10 ^ 300" by simp
  then have V: "0 < V" using assms(4) by linarith
  have p: "(4::real) ^ k \<le> 4 ^ 7" using assms(3) by (intro power_increasing) simp_all
  have "1 / 10 ^ 300 / 4 ^ 7 \<le> V / 4 ^ 7" using assms(4) by (simp add: divide_right_mono)
  also have "\<dots> \<le> V / 4 ^ k" using p V by (intro divide_left_mono) simp_all
  finally have lo: "pow2 (- 1022) \<le> \<bar>x\<bar>" using assms(1) binary64_range(1) by linarith
  have "4 ^ k * V \<le> 4 ^ 7 * V" using p V by (intro mult_right_mono) simp_all
  also have "\<dots> \<le> 4 ^ 7 * 10 ^ 300" using assms(5) by (intro mult_left_mono) simp_all
  finally have hi: "\<bar>x\<bar> \<le> pow2 1023" using assms(2) binary64_range(2) by linarith
  obtain d where d: "\<bar>d\<bar> \<le> pow2 (- 53)" "binary64 x = Num (x * (1 + d))"
    using binary64_rel [OF lo hi] by blast
  have small: "\<bar>d\<bar> \<le> 1 / 10 ^ 10" using d(1) unit_roundoff by linarith
  then have "\<bar>d\<bar> \<le> 1 / 2" by simp
  then have "1 / 4 \<le> 1 + d" "1 + d \<le> 4" by linarith+
  moreover have "\<bar>(1 + d) - 1\<bar> \<le> 1 / 10 ^ 10" using small by simp
  ultimately show ?thesis using d(2) by blast
qed

lemma product_error:
  fixes a b :: real
  assumes "\<bar>a - 1\<bar> \<le> e" "\<bar>b - 1\<bar> \<le> e" "e \<le> 1"
  shows "\<bar>a * b - 1\<bar> \<le> 3 * e"
proof -
  have e: "0 \<le> e" using assms(1) by linarith
  have "a * b - 1 = (a - 1) + (b - 1) + (a - 1) * (b - 1)" by (simp add: algebra_simps)
  moreover have "\<bar>(a - 1) * (b - 1)\<bar> \<le> e * e"
    unfolding abs_mult using assms(1,2) by (intro mult_mono) simp_all
  moreover have "e * e \<le> e" using assms(3) e by (simp add: mult_left_le)
  ultimately show ?thesis using assms(1,2) by linarith
qed


lemma factors_binary64_dom: "dom factors_binary64 = lengthUnits \<union> speedUnits"
  by (auto simp: factors_binary64_def lengthUnits_def speedUnits_def dom_def split: if_splits)

lemma convert_binary64_Num:
  assumes "factors_binary64 A = Some (Num a)" "factors_binary64 B = Some (Num b)" "b \<noteq> 0"
  shows "convert_binary64 \<lparr>qty_value = Num x, qty_unit = A\<rparr> B =
           Inr \<lparr>qty_value = fl (binary64 (x * a) / Num b), qty_unit = B\<rparr>"
  using assms by (simp add: convert_binary64_def)

section \<open>Properties of the conversion in binary64\<close>

text \<open>
  C2, as amended. For every pair of units of the same dimension and every value \<open>v\<close> that
  is zero or has a magnitude between \<open>1e-300\<close> and \<open>1e300\<close>, converting to the second unit
  and back succeeds and returns a value within a relative distance of \<open>1e-9\<close> of \<open>v\<close>.
  Each of the four roundings on the way stays in the normal range of binary64 and
  contributes a relative error of at most \<open>2^-53\<close>; the factors cancel.
\<close>

theorem convert_binary64_roundtrip:
  assumes "(A \<in> lengthUnits \<and> B \<in> lengthUnits) \<or> (A \<in> speedUnits \<and> B \<in> speedUnits)"
    and "v = 0 \<or> (1 / 10 ^ 300 \<le> \<bar>v\<bar> \<and> \<bar>v\<bar> \<le> 10 ^ 300)"
  shows "\<exists>w r. convert_binary64 \<lparr>qty_value = Num v, qty_unit = A\<rparr> B
                 = Inr \<lparr>qty_value = Num w, qty_unit = B\<rparr> \<and>
               convert_binary64 \<lparr>qty_value = Num w, qty_unit = B\<rparr> A
                 = Inr \<lparr>qty_value = Num r, qty_unit = A\<rparr> \<and>
               \<bar>r - v\<bar> \<le> \<bar>v\<bar> / 10 ^ 9"
proof -
  have "A \<in> dom factors_binary64" "B \<in> dom factors_binary64"
    using assms(1) factors_binary64_dom by auto
  then obtain fa fb where "factors_binary64 A = Some fa" "factors_binary64 B = Some fb"
    by auto
  then obtain a b where fa: "factors_binary64 A = Some (Num a)" "1 / 4 \<le> a" "a \<le> 4"
    and fb: "factors_binary64 B = Some (Num b)" "1 / 4 \<le> b" "b \<le> 4"
    using factors_binary64_bounds by metis
  have nz: "a \<noteq> 0" "b \<noteq> 0" using fa(2) fb(2) by auto
  show ?thesis
  proof (cases "v = 0")
    case True
    have "convert_binary64 \<lparr>qty_value = Num 0, qty_unit = A\<rparr> B
            = Inr \<lparr>qty_value = Num 0, qty_unit = B\<rparr>"
      using convert_binary64_Num [OF fa(1) fb(1) nz(2), of 0] nz by (simp add: binary64_def)
    moreover have "convert_binary64 \<lparr>qty_value = Num 0, qty_unit = B\<rparr> A
            = Inr \<lparr>qty_value = Num 0, qty_unit = A\<rparr>"
      using convert_binary64_Num [OF fb(1) fa(1) nz(1), of 0] nz by (simp add: binary64_def)
    ultimately show ?thesis using True by auto
  next
    case False
    then have r: "1 / 10 ^ 300 \<le> \<bar>v\<bar>" "\<bar>v\<bar> \<le> 10 ^ 300" using assms(2) by auto
    have V: "0 \<le> \<bar>v\<bar>" by simp
    have l0: "\<bar>v\<bar> / 4 ^ 0 \<le> \<bar>v\<bar>" "\<bar>v\<bar> \<le> 4 ^ 0 * \<bar>v\<bar>" by simp_all
    note l1 = level_mult(1,2) [OF l0 V fa(2,3)]
    obtain g1 where g1: "1 / 4 \<le> g1" "g1 \<le> 4" "\<bar>g1 - 1\<bar> \<le> 1 / 10 ^ 10"
        "binary64 (v * a) = Num (v * a * g1)"
      using level_round [OF l1 _ r] by auto
    note l2 = level_mult(1,2) [OF l1 V g1(1,2)]
    note l3 = level_mult(3,4) [OF l2 V fb(2,3)]
    obtain g2 where g2: "1 / 4 \<le> g2" "g2 \<le> 4" "\<bar>g2 - 1\<bar> \<le> 1 / 10 ^ 10"
        "binary64 (v * a * g1 / b) = Num (v * a * g1 / b * g2)"
      using level_round [OF l3 _ r] by auto
    define w where "w = v * a * g1 / b * g2"
    have first: "convert_binary64 \<lparr>qty_value = Num v, qty_unit = A\<rparr> B
            = Inr \<lparr>qty_value = Num w, qty_unit = B\<rparr>"
      using convert_binary64_Num [OF fa(1) fb(1) nz(2), of v] g1(4) g2(4) nz
      by (simp add: w_def)
    note l4 = level_mult(1,2) [OF l3 V g2(1,2)]
    note l5 = level_mult(1,2) [OF l4 V fb(2,3)]
    obtain g3 where g3: "1 / 4 \<le> g3" "g3 \<le> 4" "\<bar>g3 - 1\<bar> \<le> 1 / 10 ^ 10"
        "binary64 (w * b) = Num (w * b * g3)"
      using level_round [OF l5 _ r] by (auto simp: w_def)
    note l6 = level_mult(1,2) [OF l5 V g3(1,2)]
    note l7 = level_mult(3,4) [OF l6 V fa(2,3)]
    obtain g4 where g4: "1 / 4 \<le> g4" "g4 \<le> 4" "\<bar>g4 - 1\<bar> \<le> 1 / 10 ^ 10"
        "binary64 (w * b * g3 / a) = Num (w * b * g3 / a * g4)"
      using level_round [OF l7 _ r] by (auto simp: w_def)
    define r' where "r' = w * b * g3 / a * g4"
    have second: "convert_binary64 \<lparr>qty_value = Num w, qty_unit = B\<rparr> A
            = Inr \<lparr>qty_value = Num r', qty_unit = A\<rparr>"
      using convert_binary64_Num [OF fb(1) fa(1) nz(1), of w] g3(4) g4(4) nz
      by (simp add: r'_def)
    have prod: "r' = v * ((g1 * g2) * (g3 * g4))"
      using nz by (simp add: r'_def w_def field_simps)
    have e12: "\<bar>g1 * g2 - 1\<bar> \<le> 3 * (1 / 10 ^ 10)"
      using product_error [OF g1(3) g2(3)] by simp
    have e34: "\<bar>g3 * g4 - 1\<bar> \<le> 3 * (1 / 10 ^ 10)"
      using product_error [OF g3(3) g4(3)] by simp
    have "\<bar>(g1 * g2) * (g3 * g4) - 1\<bar> \<le> 3 * (3 * (1 / 10 ^ 10))"
      using product_error [OF e12 e34] by simp
    then have "\<bar>(g1 * g2) * (g3 * g4) - 1\<bar> \<le> 1 / 10 ^ 9" by simp
    then have "\<bar>v\<bar> * \<bar>(g1 * g2) * (g3 * g4) - 1\<bar> \<le> \<bar>v\<bar> * (1 / 10 ^ 9)"
      by (intro mult_left_mono) simp_all
    moreover have "r' - v = v * ((g1 * g2) * (g3 * g4) - 1)"
      by (simp add: prod algebra_simps)
    ultimately have "\<bar>r' - v\<bar> \<le> \<bar>v\<bar> / 10 ^ 9"
      by (simp add: abs_mult)
    then show ?thesis using first second by blast
  qed
qed

text \<open>The amended C2 at 100 km/h, converted to m/s and back.\<close>

theorem convert_binary64_roundtrip_witness:
  "''kmh'' \<in> speedUnits \<and> ''ms'' \<in> speedUnits \<and>
   1 / 10 ^ 300 \<le> \<bar>100 :: real\<bar> \<and> \<bar>100 :: real\<bar> \<le> 10 ^ 300 \<and>
   (\<exists>w r. convert_binary64 \<lparr>qty_value = Num 100, qty_unit = ''kmh''\<rparr> ''ms''
             = Inr \<lparr>qty_value = Num w, qty_unit = ''ms''\<rparr> \<and>
           convert_binary64 \<lparr>qty_value = Num w, qty_unit = ''ms''\<rparr> ''kmh''
             = Inr \<lparr>qty_value = Num r, qty_unit = ''kmh''\<rparr> \<and>
           \<bar>r - 100\<bar> \<le> \<bar>100\<bar> / 10 ^ 9)"
proof -
  have u: "''kmh'' \<in> speedUnits" "''ms'' \<in> speedUnits"
    by (simp_all add: speedUnits_def)
  have v: "1 / 10 ^ 300 \<le> \<bar>100 :: real\<bar>" "\<bar>100 :: real\<bar> \<le> 10 ^ 300"
    by simp_all
  show ?thesis
    using convert_binary64_roundtrip [of "''kmh''" "''ms''" 100] u v by blast
qed

lemma factors_binary64_m: "factors_binary64 ''m'' = Some (Num 1)"
  using binary64_int [of 1] by (simp add: factors_binary64_def)

lemma factors_binary64_ft: "\<exists>ft. factors_binary64 ''ft'' = Some (Num ft) \<and> 0 < ft \<and> ft \<le> 1 / 2"
proof -
  obtain d where d: "\<bar>d\<bar> \<le> pow2 (- 53)" "binary64 0.3048 = Num (0.3048 * (1 + d))"
    using binary64_small [of "0.3048"] by auto
  have "\<bar>d\<bar> \<le> 1 / 10 ^ 10" using d(1) unit_roundoff by linarith
  then have "\<bar>d\<bar> \<le> 1 / 2" by simp
  then have "- (1 / 2) \<le> d" "d \<le> 1 / 2" by linarith+
  then have "0 < 0.3048 * (1 + d)" "0.3048 * (1 + d) \<le> 1 / 2" by simp_all
  moreover have "factors_binary64 ''ft'' = Some (Num (0.3048 * (1 + d)))"
    using d(2) by (simp add: factors_binary64_def)
  ultimately show ?thesis by blast
qed

text \<open>
  C2, as stated, fails at large magnitudes: \<open>2^1023\<close> metres, a binary64 value of about
  \<open>8.99e307\<close>, converts to feet as \<open>Infinity\<close>, and \<open>Infinity\<close> feet convert back to
  \<open>Infinity\<close> metres.
\<close>

theorem convert_binary64_overflow_counterexample:
  "binary64 (2 ^ 1023) = Num (2 ^ 1023) \<and>
   convert_binary64 \<lparr>qty_value = Num (2 ^ 1023), qty_unit = ''m''\<rparr> ''ft''
     = Inr \<lparr>qty_value = PosInfinity, qty_unit = ''ft''\<rparr> \<and>
   convert_binary64 \<lparr>qty_value = PosInfinity, qty_unit = ''ft''\<rparr> ''m''
     = Inr \<lparr>qty_value = PosInfinity, qty_unit = ''m''\<rparr>"
proof -
  obtain ft where ft: "factors_binary64 ''ft'' = Some (Num ft)" "0 < ft" "ft \<le> 1 / 2"
    using factors_binary64_ft by blast
  have p: "pow2 1023 = 2 ^ 1023" "pow2 1024 = 2 * pow2 1023"
    using pow2_nat [of 1023] pow2_add [of 1 1023] by (simp_all add: pow2_def [of 1])
  have "\<bar>pow2 1023\<bar> < pow2 1024"
    using pow2_less_iff [of 1023 1024] pow2_pos [of 1023] by simp
  then have big: "binary64 (pow2 1023) = Num (pow2 1023)"
    using binary64_exact [of "pow2 1023" 1 1023] by simp
  have "pow2 1023 * 2 \<le> pow2 1023 / ft"
    using ft(2,3) pow2_pos [of 1023] by (simp add: field_simps)
  then have over: "binary64 (pow2 1023 / ft) = PosInfinity"
    using binary64_overflow [of "pow2 1023 / ft"] p(2) by simp
  have first: "convert_binary64 \<lparr>qty_value = Num (pow2 1023), qty_unit = ''m''\<rparr> ''ft''
     = Inr \<lparr>qty_value = PosInfinity, qty_unit = ''ft''\<rparr>"
    using ft big over factors_binary64_m by (simp add: convert_binary64_def)
  have second: "convert_binary64 \<lparr>qty_value = PosInfinity, qty_unit = ''ft''\<rparr> ''m''
     = Inr \<lparr>qty_value = PosInfinity, qty_unit = ''m''\<rparr>"
    using ft factors_binary64_m by (simp add: convert_binary64_def signedInfinity_def)
  show ?thesis
    using big first second unfolding p(1) by blast
qed

section \<open>Properties of the rounding to a step in binary64\<close>








end
